theory Spec2Isabelle
  imports Main "HOL-Library.Sublist"
begin

section \<open>Data model of the editor (Bolt.cpp)\<close>

text \<open>
  The enumeration \<open>editorHighlight\<close>, the grammar record \<open>EditorSyntax\<close>, a row
  \<open>ERow\<close> and the global editor state \<open>editorConfig\<close>.  C++ \<open>int\<close> values
  (cursor, offsets, row indices) are unbounded integers here: every quantity below is
  bounded by the size of a row or of the document, far from the 32-bit limit.  The field
  \<open>orig_termios\<close> belongs to the terminal layer and is left out.  The pointer
  \<open>E.syntax\<close> is an option: \<open>None\<close> is the null pointer.
\<close>

datatype editorHighlight =
    HL_NORMAL
  | HL_COMMENT
  | HL_KEYWORD1
  | HL_KEYWORD2
  | HL_STRING
  | HL_NUMBER
  | HL_MATCH

record EditorSyntax =
  filetype :: string
  extensions :: "string list"
  syntax_keywords :: "string list"
  singleline_comment_start :: string
  flags :: int

record ERow =
  chars :: string
  render :: string
  hl :: "editorHighlight list"

record editorConfig =
  E_cx :: int
  E_cy :: int
  E_rx :: int
  E_rowoff :: int
  E_coloff :: int
  E_screenrows :: int
  E_screencols :: int
  E_dirty :: bool
  E_filename :: string
  E_statusmsg :: string
  E_statusmsg_time :: int
  E_syntax :: "EditorSyntax option"
  E_rows :: "ERow list"

text \<open>
  Undefined behaviour of the C++ program (indexing a vector or a string outside its
  bounds, \<open>substr\<close>/\<open>erase\<close> past the end, \<open>std::fill\<close> over a range that leaves
  the container) is an error value of the model.
\<close>

datatype error = OutOfRange

definition KILO_TAB_STOP :: nat where
  "KILO_TAB_STOP = 8"

definition HL_HIGHLIGHT_NUMBERS :: int where
  "HL_HIGHLIGHT_NUMBERS = 1"

definition HL_HIGHLIGHT_STRINGS :: int where
  "HL_HIGHLIGHT_STRINGS = 2"

definition HLDB :: "EditorSyntax list" where
  "HLDB = [\<lparr> filetype = ''c'',
            extensions = [''.c'', ''.h'', ''.cpp''],
            syntax_keywords = [''switch'', ''if'', ''while'', ''for'', ''break'', ''continue'',
                        ''return'', ''else'', ''struct'', ''union'', ''typedef'', ''static'',
                        ''enum'', ''class'', ''case'', ''int|'', ''long|'', ''double|'',
                        ''float|'', ''char|'', ''unsigned|'', ''signed|'', ''void|''],
            singleline_comment_start = ''//'',
            flags = 3 \<rparr>]"

section \<open>Syntax highlighting\<close>

text \<open>The C library predicates, in the "C" locale, on a byte.\<close>

definition isspace :: "char \<Rightarrow> bool" where
  "isspace c = (c = CHR '' '' \<or> c = CHR 0x09 \<or> c = CHR 0x0A \<or> c = CHR 0x0B
                \<or> c = CHR 0x0C \<or> c = CHR 0x0D)"

definition isdigit :: "char \<Rightarrow> bool" where
  "isdigit c = (c \<in> set ''0123456789'')"

definition is_separator :: "char \<Rightarrow> bool" where
  "is_separator c = (isspace c \<or> c = CHR 0x00 \<or> c \<in> set '',.()+-/*=~%<>[];'')"

text \<open>\<open>std::fill(v.begin() + from, v.begin() + to, x)\<close> on a range inside the vector.\<close>

function fill_range :: "'a list \<Rightarrow> nat \<Rightarrow> nat \<Rightarrow> 'a \<Rightarrow> 'a list" where
  "fill_range xs from to x =
     (if from < to then fill_range (xs[from := x]) (Suc from) to x else xs)"
  by pat_completeness auto
termination
  by (relation "measure (\<lambda>(xs, from, to, x). to - from)") auto

declare fill_range.simps [simp del]

text \<open>
  The keyword loop of \<open>editorUpdateSyntax\<close> at position \<open>i\<close>: the first keyword of the
  list that matches there and is followed by a separator or by the end of the row; the
  result is its length (without the marker \<open>|\<close>) and its colour.
\<close>

fun match_keyword :: "string list \<Rightarrow> string \<Rightarrow> nat \<Rightarrow> (nat \<times> editorHighlight) option" where
  "match_keyword [] rnd i = None"
| "match_keyword (kw # kws) rnd i =
     (let secondary = (kw \<noteq> [] \<and> last kw = CHR ''|'');
          key = (if secondary then butlast kw else kw);
          kw_color = (if secondary then HL_KEYWORD2 else HL_KEYWORD1);
          klen = length key
      in if i + klen \<le> length rnd \<and> take klen (drop i rnd) = key
            \<and> (i + klen = length rnd \<or> is_separator (rnd ! (i + klen)))
         then Some (klen, kw_color)
         else match_keyword kws rnd i)"

text \<open>The test that opens a single-line comment at position \<open>i\<close>.\<close>

definition comment_starts :: "EditorSyntax option \<Rightarrow> char option \<Rightarrow> string \<Rightarrow> nat \<Rightarrow> bool" where
  "comment_starts syn in_string rnd i =
     (case syn of
        None \<Rightarrow> False
      | Some s \<Rightarrow>
          singleline_comment_start s \<noteq> [] \<and> in_string = None
          \<and> i + length (singleline_comment_start s) \<le> length rnd
          \<and> take (length (singleline_comment_start s)) (drop i rnd) = singleline_comment_start s)"

text \<open>The test of the number branch at position \<open>i\<close>, with \<open>c\<close> and \<open>prev_hl\<close> as in the source.\<close>

definition number_here :: "string \<Rightarrow> editorHighlight list \<Rightarrow> bool \<Rightarrow> nat \<Rightarrow> bool" where
  "number_here rnd h prev_sep i =
     (let c = rnd ! i;
          prev_hl = (if 0 < i then h ! (i - 1) else HL_NORMAL)
      in (isdigit c \<and> (prev_sep \<or> prev_hl = HL_NUMBER))
         \<or> (c = CHR ''.'' \<and> prev_hl = HL_NUMBER))"

text \<open>
  The \<open>while\<close> loop of \<open>editorUpdateSyntax\<close>.  \<open>in_string\<close> is \<open>None\<close> for the C++
  value 0 and \<open>Some q\<close> for the quote byte \<open>q\<close>.  A keyword of length 0 (the entries
  \<open>""\<close> and \<open>"|"\<close>) matches without advancing \<open>i\<close>, but clears \<open>prev_sep\<close>.
\<close>

function syntax_loop ::
  "EditorSyntax option \<Rightarrow> string list \<Rightarrow> string \<Rightarrow> editorHighlight list \<Rightarrow> bool \<Rightarrow> char option
     \<Rightarrow> nat \<Rightarrow> editorHighlight list" where
  "syntax_loop syn kws rnd h prev_sep in_string i =
     (if i < length rnd then
        if comment_starts syn in_string rnd i then fill_range h i (length h) HL_COMMENT
        else
          (case in_string of
             Some q \<Rightarrow>
               syntax_loop syn kws rnd (h[i := HL_STRING]) True
                 (if rnd ! i = q then None else Some q) (i + 1)
           | None \<Rightarrow>
               if rnd ! i = CHR 0x22 \<or> rnd ! i = CHR 0x27 then
                 syntax_loop syn kws rnd (h[i := HL_STRING]) prev_sep (Some (rnd ! i)) (i + 1)
               else if number_here rnd h prev_sep i then
                 syntax_loop syn kws rnd (h[i := HL_NUMBER]) False None (i + 1)
               else
                 (case (if prev_sep then match_keyword kws rnd i else None) of
                    Some (klen, kw_color) \<Rightarrow>
                      syntax_loop syn kws rnd (fill_range h i (i + klen) kw_color) False None
                        (i + klen)
                  | None \<Rightarrow>
                      syntax_loop syn kws rnd h (is_separator (rnd ! i)) None (i + 1)))
      else h)"
  by pat_completeness auto
termination
  by (relation "measure (\<lambda>(syn, kws, rnd, h, prev_sep, in_string, i).
                   2 * (length rnd - i) + (if prev_sep then 1 else 0))")
     (auto split: if_splits simp: neq_Nil_conv)

declare syntax_loop.simps [simp del]

definition editorUpdateSyntax :: "EditorSyntax option \<Rightarrow> ERow \<Rightarrow> ERow" where
  "editorUpdateSyntax syn row =
     row\<lparr> hl := syntax_loop syn (case syn of None \<Rightarrow> [] | Some s \<Rightarrow> syntax_keywords s) (render row)
                    (replicate (length (render row)) HL_NORMAL) True None 0 \<rparr>"

text \<open>
  \<open>editorSelectSyntaxHighlight\<close>: no grammar without a file name or without a dot in
  it; otherwise the single entry of \<open>HLDB\<close>, whatever the extension is.
\<close>

definition editorSelectSyntaxHighlight :: "editorConfig \<Rightarrow> editorConfig" where
  "editorSelectSyntaxHighlight E =
     (if E_filename E = [] then E\<lparr> E_syntax := None \<rparr>
      else if CHR ''.'' \<notin> set (E_filename E) then E\<lparr> E_syntax := None \<rparr>
      else E\<lparr> E_syntax := Some (HLDB ! 0) \<rparr>)"

text \<open>
  \<open>initEditor\<close>, given the window size that \<open>getWindowSize\<close> reports; the row vector of
  the global \<open>E\<close> starts empty.
\<close>

definition initEditor :: "int \<Rightarrow> int \<Rightarrow> editorConfig" where
  "initEditor window_rows window_cols =
     \<lparr> E_cx = 0, E_cy = 0, E_rx = 0, E_rowoff = 0, E_coloff = 0,
       E_screenrows = window_rows - 2, E_screencols = window_cols,
       E_dirty = False, E_filename = [], E_statusmsg = [], E_statusmsg_time = 0,
       E_syntax = None, E_rows = [] \<rparr>"

section \<open>Row operations\<close>

text \<open>
  \<open>editorRowCxToRx\<close>: the loop reads \<open>row.chars[j]\<close> for \<open>j < cx\<close>.  Reading at
  \<open>j = size\<close> yields the NUL byte of a \<open>std::string\<close>; reading further is undefined.
\<close>

function cx_to_rx_loop :: "string \<Rightarrow> int \<Rightarrow> nat \<Rightarrow> int \<Rightarrow> error + int" where
  "cx_to_rx_loop cs cx j rx =
     (if int j < cx then
        if length cs < j then Inl OutOfRange
        else
          cx_to_rx_loop cs cx (Suc j)
            ((if j < length cs \<and> cs ! j = CHR 0x09
              then rx + ((int KILO_TAB_STOP - 1) - (rx mod int KILO_TAB_STOP))
              else rx) + 1)
      else Inr rx)"
  by pat_completeness auto
termination
  by (relation "measure (\<lambda>(cs, cx, j, rx). nat (cx - int j))") auto

declare cx_to_rx_loop.simps [simp del]

definition editorRowCxToRx :: "ERow \<Rightarrow> int \<Rightarrow> error + int" where
  "editorRowCxToRx row cx = cx_to_rx_loop (chars row) cx 0 0"

text \<open>
  \<open>editorUpdateRow\<close>: \<open>render.tellp()\<close> is the number of bytes written so far, the
  length of the accumulator.  \<open>pad_tab\<close> is the inner \<open>while\<close> loop.
\<close>

function pad_tab :: "string \<Rightarrow> string" where
  "pad_tab r = (if length r mod KILO_TAB_STOP \<noteq> 0 then pad_tab (r @ '' '') else r)"
  by pat_completeness auto
termination
proof (relation "measure (\<lambda>r. (KILO_TAB_STOP - length r mod KILO_TAB_STOP) mod KILO_TAB_STOP)")
  show "wf (measure (\<lambda>r. (KILO_TAB_STOP - length r mod KILO_TAB_STOP) mod KILO_TAB_STOP))"
    by (rule wf_measure)
next
  fix r :: string
  assume "length r mod KILO_TAB_STOP \<noteq> 0"
  then have nz: "length r mod 8 \<noteq> 0"
    unfolding KILO_TAB_STOP_def .
  have "(8 - Suc (length r) mod 8) mod 8 < (8 - length r mod 8) mod (8::nat)"
    using nz by (cases "Suc (length r) mod 8 = 0") (auto simp: mod_Suc split: if_splits)
  then show "(r @ '' '', r)
      \<in> measure (\<lambda>r. (KILO_TAB_STOP - length r mod KILO_TAB_STOP) mod KILO_TAB_STOP)"
    by (simp only: in_measure KILO_TAB_STOP_def length_append list.size
          add_Suc_right add_0_right)
qed

declare pad_tab.simps [simp del]

fun render_loop :: "string \<Rightarrow> string \<Rightarrow> string" where
  "render_loop [] r = r"
| "render_loop (c # cs) r =
     render_loop cs (if c = CHR 0x09 then pad_tab (r @ '' '') else r @ [c])"

definition editorUpdateRow :: "EditorSyntax option \<Rightarrow> ERow \<Rightarrow> ERow" where
  "editorUpdateRow syn row = editorUpdateSyntax syn (row\<lparr> render := render_loop (chars row) [] \<rparr>)"

definition editorInsertRow :: "int \<Rightarrow> string \<Rightarrow> editorConfig \<Rightarrow> editorConfig" where
  "editorInsertRow at s E =
     (if at < 0 \<or> at > int (length (E_rows E)) then E
      else
        let newRow = editorUpdateRow (E_syntax E) \<lparr> chars = s, render = [], hl = [] \<rparr>
        in E\<lparr> E_rows := take (nat at) (E_rows E) @ newRow # drop (nat at) (E_rows E),
               E_dirty := True \<rparr>)"

definition editorDelRow :: "int \<Rightarrow> editorConfig \<Rightarrow> editorConfig" where
  "editorDelRow at E =
     (if at < 0 \<or> at \<ge> int (length (E_rows E)) then E
      else E\<lparr> E_rows := take (nat at) (E_rows E) @ drop (Suc (nat at)) (E_rows E),
               E_dirty := True \<rparr>)"

text \<open>
  The functions below take a reference \<open>ERow &row\<close> in the source.  Every caller passes
  an element of \<open>E.rows\<close>; the model takes its index \<open>ri\<close>, which the callers check.
\<close>

definition editorRowInsertChar :: "nat \<Rightarrow> int \<Rightarrow> char \<Rightarrow> editorConfig \<Rightarrow> editorConfig" where
  "editorRowInsertChar ri at c E =
     (let row = E_rows E ! ri;
          at' = (if at < 0 \<or> at > int (length (chars row)) then length (chars row) else nat at);
          row' = editorUpdateRow (E_syntax E)
                   (row\<lparr> chars := take at' (chars row) @ c # drop at' (chars row) \<rparr>)
      in E\<lparr> E_rows := (E_rows E)[ri := row'], E_dirty := True \<rparr>)"

definition editorRowAppendString :: "nat \<Rightarrow> string \<Rightarrow> editorConfig \<Rightarrow> editorConfig" where
  "editorRowAppendString ri s E =
     (let row = E_rows E ! ri;
          row' = editorUpdateRow (E_syntax E) (row\<lparr> chars := chars row @ s \<rparr>)
      in E\<lparr> E_rows := (E_rows E)[ri := row'], E_dirty := True \<rparr>)"

definition editorRowDelChar :: "nat \<Rightarrow> int \<Rightarrow> editorConfig \<Rightarrow> editorConfig" where
  "editorRowDelChar ri at E =
     (let row = E_rows E ! ri in
      if at < 0 \<or> at \<ge> int (length (chars row)) then E
      else
        let row' = editorUpdateRow (E_syntax E)
                     (row\<lparr> chars := take (nat at) (chars row) @ drop (Suc (nat at)) (chars row) \<rparr>)
        in E\<lparr> E_rows := (E_rows E)[ri := row'], E_dirty := True \<rparr>)"

section \<open>Editor operations\<close>

definition editorInsertChar :: "char \<Rightarrow> editorConfig \<Rightarrow> error + editorConfig" where
  "editorInsertChar c E =
     (let E1 = (if E_cy E = int (length (E_rows E))
                then editorInsertRow (int (length (E_rows E))) [] E else E)
      in if E_cy E1 < 0 \<or> E_cy E1 \<ge> int (length (E_rows E1)) then Inl OutOfRange
         else
           let E2 = editorRowInsertChar (nat (E_cy E1)) (E_cx E1) c E1
           in Inr (E2\<lparr> E_cx := E_cx E2 + 1 \<rparr>))"

definition editorInsertNewline :: "editorConfig \<Rightarrow> error + editorConfig" where
  "editorInsertNewline E =
     (if E_cx E = 0 then
        let E1 = editorInsertRow (E_cy E) [] E
        in Inr (E1\<lparr> E_cy := E_cy E1 + 1, E_cx := 0 \<rparr>)
      else if E_cy E < 0 \<or> E_cy E \<ge> int (length (E_rows E)) then Inl OutOfRange
      else
        let ri = nat (E_cy E); row = E_rows E ! ri
        in if E_cx E < 0 \<or> E_cx E > int (length (chars row)) then Inl OutOfRange
           else
             let splitText = drop (nat (E_cx E)) (chars row);
                 row' = editorUpdateRow (E_syntax E) (row\<lparr> chars := take (nat (E_cx E)) (chars row) \<rparr>);
                 E1 = E\<lparr> E_rows := (E_rows E)[ri := row'] \<rparr>;
                 E2 = editorInsertRow (E_cy E1 + 1) splitText E1
             in Inr (E2\<lparr> E_cy := E_cy E2 + 1, E_cx := 0 \<rparr>))"

definition editorDelChar :: "editorConfig \<Rightarrow> error + editorConfig" where
  "editorDelChar E =
     (if E_cy E = int (length (E_rows E)) then Inr E
      else if E_cx E = 0 \<and> E_cy E = 0 then Inr E
      else if E_cy E < 0 \<or> E_cy E \<ge> int (length (E_rows E)) then Inl OutOfRange
      else if E_cx E > 0 then
        let E1 = editorRowDelChar (nat (E_cy E)) (E_cx E - 1) E
        in Inr (E1\<lparr> E_cx := E_cx E1 - 1 \<rparr>)
      else if E_cy E - 1 < 0 then Inl OutOfRange
      else
        let row = E_rows E ! nat (E_cy E);
            E1 = E\<lparr> E_cx := int (length (chars (E_rows E ! nat (E_cy E - 1)))) \<rparr>;
            E2 = editorRowAppendString (nat (E_cy E1 - 1)) (chars row) E1;
            E3 = editorDelRow (E_cy E2) E2
        in Inr (E3\<lparr> E_cy := E_cy E3 - 1 \<rparr>))"

section \<open>File input and output\<close>

definition editorRowsToString :: "editorConfig \<Rightarrow> string" where
  "editorRowsToString E = concat (map (\<lambda>row. chars row @ [CHR 0x0A]) (E_rows E))"

text \<open>
  \<open>editorOpen\<close>, from the lines that \<open>std::getline\<close> delivers (opening and reading the
  file belong to the operating system): each line loses one trailing carriage return
  and is inserted as the last row.
\<close>

definition strip_cr :: "string \<Rightarrow> string" where
  "strip_cr line = (if line \<noteq> [] \<and> last line = CHR 0x0D then butlast line else line)"

fun open_loop :: "string list \<Rightarrow> editorConfig \<Rightarrow> editorConfig" where
  "open_loop [] E = E"
| "open_loop (line # rest) E =
     open_loop rest (editorInsertRow (int (length (E_rows E))) (strip_cr line) E)"

definition editorOpen :: "string \<Rightarrow> string list \<Rightarrow> editorConfig \<Rightarrow> editorConfig" where
  "editorOpen fname file_lines E =
     (let E1 = editorSelectSyntaxHighlight (E\<lparr> E_filename := fname \<rparr>);
          E2 = open_loop file_lines E1
      in E2\<lparr> E_dirty := False \<rparr>)"

section \<open>Incremental search\<close>

text \<open>The key codes that \<open>editorFindCallback\<close> tests.\<close>

definition ARROW_LEFT :: int where "ARROW_LEFT = 1000"
definition ARROW_RIGHT :: int where "ARROW_RIGHT = 1001"
definition ARROW_UP :: int where "ARROW_UP = 1002"
definition ARROW_DOWN :: int where "ARROW_DOWN = 1003"
definition KEY_ENTER :: int where "KEY_ENTER = 13"
definition KEY_ESC :: int where "KEY_ESC = 27"

text \<open>
  The static locals of \<open>editorFindCallback\<close>.  \<open>saved_hl\<close> is a pointer to a copy of
  a highlight vector, \<open>None\<close> when null.
\<close>

record findState =
  last_match :: int
  direction :: int
  saved_hl_line :: int
  saved_hl :: "editorHighlight list option"

definition find_init :: findState where
  "find_init = \<lparr> last_match = - 1, direction = 1, saved_hl_line = 0, saved_hl = None \<rparr>"

text \<open>\<open>std::string::find\<close>: the first position where the query occurs.\<close>

fun str_find :: "string \<Rightarrow> string \<Rightarrow> nat option" where
  "str_find [] q = (if q = [] then Some 0 else None)"
| "str_find (c # cs) q =
     (if prefix q (c # cs) then Some 0 else map_option Suc (str_find cs q))"

text \<open>The first block of the callback: write the saved highlight back, free the slot.\<close>

definition find_restore :: "editorConfig \<Rightarrow> findState \<Rightarrow> error + (editorConfig \<times> findState)" where
  "find_restore E st =
     (case saved_hl st of
        None \<Rightarrow> Inr (E, st)
      | Some sv \<Rightarrow>
          if saved_hl_line st < 0 \<or> saved_hl_line st \<ge> int (length (E_rows E)) then Inl OutOfRange
          else
            let ri = nat (saved_hl_line st)
            in Inr (E\<lparr> E_rows := (E_rows E)[ri := (E_rows E ! ri)\<lparr> hl := sv \<rparr>] \<rparr>,
                    st\<lparr> saved_hl := None \<rparr>))"

text \<open>
  The body of the \<open>if (pos != npos)\<close> block: the match is recorded, the row's highlight
  is copied into the slot, then reset to \<open>HL_NORMAL\<close> over the rendered length and
  filled with \<open>HL_MATCH\<close> from \<open>pos\<close> for the length of the query.
\<close>

definition find_record_match ::
  "string \<Rightarrow> nat \<Rightarrow> nat \<Rightarrow> editorConfig \<Rightarrow> findState \<Rightarrow> error + (editorConfig \<times> findState)" where
  "find_record_match query current pos E st =
     (let row = E_rows E ! current;
          h0 = replicate (length (render row)) HL_NORMAL
      in if pos + length query > length h0 then Inl OutOfRange
         else
           Inr (E\<lparr> E_cy := int current,
                   E_cx := int pos,
                   E_rowoff := int (length (E_rows E)),
                   E_rows := (E_rows E)[current :=
                     row\<lparr> hl := fill_range h0 pos (pos + length query) HL_MATCH \<rparr>] \<rparr>,
                st\<lparr> last_match := int current,
                    saved_hl_line := int current,
                    saved_hl := Some (hl row) \<rparr>))"

text \<open>The \<open>for\<close> loop of the callback, at iteration \<open>i\<close> with the row index \<open>current\<close>.\<close>

function find_scan ::
  "string \<Rightarrow> nat \<Rightarrow> int \<Rightarrow> editorConfig \<Rightarrow> findState \<Rightarrow> error + (editorConfig \<times> findState)" where
  "find_scan query i current E st =
     (if i < length (E_rows E) then
        let c1 = current + direction st;
            c2 = (if c1 = - 1 then int (length (E_rows E)) - 1
                  else if c1 = int (length (E_rows E)) then 0 else c1)
        in if c2 < 0 \<or> c2 \<ge> int (length (E_rows E)) then Inl OutOfRange
           else
             (case str_find (chars (E_rows E ! nat c2)) query of
                Some pos \<Rightarrow> find_record_match query (nat c2) pos E st
              | None \<Rightarrow> find_scan query (Suc i) c2 E st)
      else Inr (E, st))"
  by pat_completeness auto
termination
  by (relation "measure (\<lambda>(query, i, current, E, st). length (E_rows E) - i)") auto

declare find_scan.simps [simp del]

text \<open>The key dispatch between the restore block and the loop.\<close>

definition find_key :: "int \<Rightarrow> findState \<Rightarrow> findState" where
  "find_key key st =
     (let st1 = (if key = ARROW_RIGHT \<or> key = ARROW_DOWN then st\<lparr> direction := 1 \<rparr>
                 else if key = ARROW_LEFT \<or> key = ARROW_UP then st\<lparr> direction := - 1 \<rparr>
                 else st\<lparr> last_match := - 1, direction := 1 \<rparr>)
      in if last_match st1 = - 1 then st1\<lparr> direction := 1 \<rparr> else st1)"

definition editorFindCallback ::
  "string \<Rightarrow> int \<Rightarrow> editorConfig \<Rightarrow> findState \<Rightarrow> error + (editorConfig \<times> findState)" where
  "editorFindCallback query key E st =
     (case find_restore E st of
        Inl e \<Rightarrow> Inl e
      | Inr (E1, st1) \<Rightarrow>
          if key = KEY_ENTER \<or> key = KEY_ESC
          then Inr (E1, st1\<lparr> last_match := - 1, direction := 1 \<rparr>)
          else find_scan query 0 (last_match (find_key key st1)) E1 (find_key key st1))"

section \<open>Auxiliary notions for the proofs\<close>

text \<open>
  One iteration of the loop of \<open>editorRowCxToRx\<close> on the byte \<open>c\<close>, with the tab
  stop 8 written out; \<open>cx_to_rx_loop_foldl\<close> below relates it to the loop.
\<close>

definition rx_step :: "int \<Rightarrow> char \<Rightarrow> int" where
  "rx_step rx c = (if c = CHR 0x09 then rx + (7 - rx mod 8) else rx) + 1"

text \<open>
  The row invariant of the document, and the six edit operations as a relation between
  the state before and the state after (an operation that reads out of range has no
  state after).
\<close>

definition rows_in_sync :: "editorConfig \<Rightarrow> bool" where
  "rows_in_sync E = (\<forall>row \<in> set (E_rows E). length (render row) = length (hl row))"

inductive edit_op :: "editorConfig \<Rightarrow> editorConfig \<Rightarrow> bool" where
  insert_char: "editorInsertChar c E = Inr E' \<Longrightarrow> edit_op E E'"
| insert_newline: "editorInsertNewline E = Inr E' \<Longrightarrow> edit_op E E'"
| del_char: "editorDelChar E = Inr E' \<Longrightarrow> edit_op E E'"
| insert_row: "edit_op E (editorInsertRow at s E)"
| del_row: "edit_op E (editorDelRow at E)"
| append_string: "ri < length (E_rows E) \<Longrightarrow> edit_op E (editorRowAppendString ri s E)"

text \<open>
  The cursor positions the editor keeps: a row of the document or the virtual row past
  the end, and a column inside the row (column 0 on the virtual row).
\<close>

definition cursor_ok :: "editorConfig \<Rightarrow> bool" where
  "cursor_ok E =
     (0 \<le> E_cy E \<and> E_cy E \<le> int (length (E_rows E)) \<and> 0 \<le> E_cx E
      \<and> (if E_cy E = int (length (E_rows E)) then E_cx E = 0
          else E_cx E \<le> int (length (chars (E_rows E ! nat (E_cy E))))))"

text \<open>
  The text the specification expects from serialising a sequence of lines, in its own
  words: the lines joined by a newline, with one trailing newline.
\<close>

fun join_newline :: "string list \<Rightarrow> string" where
  "join_newline [] = []"
| "join_newline [l] = l"
| "join_newline (l # l' # ls) = l @ [CHR 0x0A] @ join_newline (l' # ls)"

definition lines_text :: "string list \<Rightarrow> string" where
  "lines_text ls = join_newline ls @ [CHR 0x0A]"


definition doc_foo_foo :: editorConfig where
  "doc_foo_foo = editorOpen ''a.c'' [''foo'', ''foo''] (initEditor 24 80)"

definition doc_bar_foo :: editorConfig where
  "doc_bar_foo = editorOpen ''a.c'' [''bar'', ''foo''] (initEditor 24 80)"

definition doc_foo_bar_baz_foo :: editorConfig where
  "doc_foo_bar_baz_foo = editorOpen ''a.c'' [''foo bar'', ''baz foo''] (initEditor 24 80)"

section \<open>Facts about the highlight classifier\<close>

lemma length_fill_range [simp]: "length (fill_range xs a b x) = length xs"
  by (induction xs a b x rule: fill_range.induct) (subst fill_range.simps, simp)

lemma length_syntax_loop [simp]:
  "length (syntax_loop syn kws rnd h prev_sep in_string i) = length h"
proof (induction syn kws rnd h prev_sep in_string i rule: syntax_loop.induct)
  case (1 syn kws rnd h prev_sep in_string i)
  show ?case
  proof (cases "i < length rnd \<and> \<not> comment_starts syn in_string rnd i")
    case False
    then show ?thesis
      by (subst syntax_loop.simps) auto
  next
    case go: True
    show ?thesis
    proof (cases in_string)
      case (Some q)
      with go 1(5) [of q] show ?thesis
        by (subst syntax_loop.simps) simp
    next
      case None
      show ?thesis
      proof (cases "rnd ! i = CHR 0x22 \<or> rnd ! i = CHR 0x27")
        case True
        with go None 1(1) show ?thesis
          by (subst syntax_loop.simps) simp
      next
        case nq: False
        show ?thesis
        proof (cases "number_here rnd h prev_sep i")
          case True
          with go None nq 1(2) show ?thesis
            by (subst syntax_loop.simps) simp
        next
          case nn: False
          show ?thesis
          proof (cases "if prev_sep then match_keyword kws rnd i else None")
            case nk: None
            from 1(3) [OF _ _ None nq nn nk] go
            have "length (syntax_loop syn kws rnd h (is_separator (rnd ! i)) None (i + 1)) = length h"
              by simp
            with go None nq nn nk show ?thesis
              by (subst syntax_loop.simps) (simp del: One_nat_def)
          next
            case (Some m)
            obtain klen col where m: "m = (klen, col)"
              by (cases m)
            from 1(4) [OF _ _ None nq nn Some, of klen col] go m
            have "length (syntax_loop syn kws rnd (fill_range h i (i + klen) col) False None (i + klen)) = length h"
              by simp
            with go None nq nn Some m show ?thesis
              by (subst syntax_loop.simps) simp
          qed
        qed
      qed
    qed
  qed
qed

section \<open>Facts about the render mapper\<close>

lemma mod8_aligned: "(n::int) mod 8 = 0 \<Longrightarrow> (n + 7) mod 8 = 7"
  using mod_add_left_eq [of n 8 7] by simp

lemma mod8_unaligned: "(n::int) mod 8 \<noteq> 0 \<Longrightarrow> (n + 1 + 7) mod 8 = (n + 7) mod 8 + 1"
proof -
  assume nz: "n mod 8 \<noteq> 0"
  define k where "k = n mod 8"
  have "0 \<le> k" "k < 8"
    by (simp_all add: k_def)
  with nz have k: "0 < k" "k < 8"
    by (simp_all add: k_def less_le)
  have n: "n = 8 * (n div 8) + k"
    by (simp add: k_def)
  have "(n + 7) mod 8 = (k - 1 + 8 * (n div 8 + 1)) mod 8"
    by (subst n) (simp add: algebra_simps)
  also have "\<dots> = (k - 1) mod 8"
    by (simp only: mod_mult_self2)
  also have "\<dots> = k - 1"
    using k by simp
  finally have a: "(n + 7) mod 8 = k - 1" .
  have "(n + 1 + 7) mod 8 = (n + 8) mod 8"
    by (simp add: add.assoc)
  also have "\<dots> = k"
    by (simp add: k_def)
  finally show ?thesis
    using a by simp
qed

lemma rx_step_gt: "rx < rx_step rx c"
proof -
  have "rx mod 8 < 8" by simp
  then have "rx mod 8 \<le> 7" by linarith
  then show ?thesis by (simp add: rx_step_def)
qed

lemma foldl_rx_step_ge: "rx \<le> foldl rx_step rx cs"
proof (induction cs arbitrary: rx)
  case Nil
  show ?case by simp
next
  case (Cons c cs)
  have "rx < rx_step rx c" by (rule rx_step_gt)
  also have "rx_step rx c \<le> foldl rx_step (rx_step rx c) cs" by (rule Cons.IH)
  finally show ?case by simp
qed

lemma cx_to_rx_loop_foldl:
  "int j \<le> cx \<Longrightarrow> cx \<le> int (length cs) \<Longrightarrow>
   cx_to_rx_loop cs cx j rx = Inr (foldl rx_step rx (take (nat cx - j) (drop j cs)))"
proof (induction cs cx j rx rule: cx_to_rx_loop.induct)
  case (1 cs cx j rx)
  show ?case
  proof (cases "int j < cx")
    case False
    with 1(2) have "nat cx - j = 0" by simp
    with False show ?thesis
      by (subst cx_to_rx_loop.simps) simp
  next
    case True
    with 1(3) have jl: "j < length cs" by simp
    from True have "nat cx - j = Suc (nat cx - Suc j)" by simp
    then have tk: "take (nat cx - j) (drop j cs) = cs ! j # take (nat cx - Suc j) (drop (Suc j) cs)"
      using jl by (simp add: Cons_nth_drop_Suc [symmetric])
    have step: "(if j < length cs \<and> cs ! j = CHR 0x09
                 then rx + ((int KILO_TAB_STOP - 1) - (rx mod int KILO_TAB_STOP))
                 else rx) + 1 = rx_step rx (cs ! j)"
      using jl by (simp add: rx_step_def KILO_TAB_STOP_def)
    have "cx_to_rx_loop cs cx j rx = cx_to_rx_loop cs cx (Suc j) (rx_step rx (cs ! j))"
      using True jl by (subst cx_to_rx_loop.simps) (simp add: rx_step_def KILO_TAB_STOP_def)
    also have "\<dots> = Inr (foldl rx_step (rx_step rx (cs ! j)) (take (nat cx - Suc j) (drop (Suc j) cs)))"
      using 1(1) [OF True] jl True 1(3) unfolding step by simp
    finally show ?thesis
      by (simp add: tk)
  qed
qed

lemma editorRowCxToRx_foldl:
  "0 \<le> cx \<Longrightarrow> cx \<le> int (length (chars row)) \<Longrightarrow>
   editorRowCxToRx row cx = Inr (foldl rx_step 0 (take (nat cx) (chars row)))"
  using cx_to_rx_loop_foldl [of 0 cx "chars row" 0] by (simp add: editorRowCxToRx_def)

lemma length_pad_tab:
  "int (length (pad_tab r)) = int (length r) + (7 - (int (length r) + 7) mod 8)"
proof (induction r rule: pad_tab.induct)
  case (1 r)
  show ?case
  proof (cases "length r mod 8 = 0")
    case True
    have "int (length r mod 8) = int (length r) mod 8"
      by (simp add: of_nat_mod)
    with True have "int (length r) mod 8 = 0"
      by linarith
    then have "(int (length r) + 7) mod 8 = 7"
      by (rule mod8_aligned)
    with True show ?thesis
      by (subst pad_tab.simps) (simp add: KILO_TAB_STOP_def)
  next
    case False
    then have ih: "int (length (pad_tab (r @ '' ''))) = int (length (r @ '' ''))
                    + (7 - (int (length (r @ '' '')) + 7) mod 8)"
      using 1 by (simp add: KILO_TAB_STOP_def)
    have "int (length r mod 8) = int (length r) mod 8"
      by (simp add: of_nat_mod)
    with False have "int (length r) mod 8 \<noteq> 0"
      by linarith
    then have "(int (length r) + 1 + 7) mod 8 = (int (length r) + 7) mod 8 + 1"
      by (rule mod8_unaligned)
    with False ih show ?thesis
      by (subst pad_tab.simps) (simp add: KILO_TAB_STOP_def)
  qed
qed

lemma length_pad_tab_space:
  "int (length (pad_tab (r @ '' ''))) = rx_step (int (length r)) (CHR 0x09)"
  by (simp add: length_pad_tab rx_step_def)

lemma length_render_loop:
  "int (length (render_loop cs r)) = foldl rx_step (int (length r)) cs"
proof (induction cs arbitrary: r)
  case Nil
  show ?case by simp
next
  case (Cons c cs)
  show ?case
  proof (cases "c = CHR 0x09")
    case True
    then show ?thesis
      by (simp add: Cons.IH length_pad_tab_space)
  next
    case False
    then have "rx_step (int (length r)) c = int (length (r @ [c]))"
      by (simp add: rx_step_def)
    with False show ?thesis
      by (simp add: Cons.IH)
  qed
qed

lemma render_editorUpdateRow: "render (editorUpdateRow syn row) = render_loop (chars row) []"
  by (simp add: editorUpdateRow_def editorUpdateSyntax_def)

lemma chars_editorUpdateRow: "chars (editorUpdateRow syn row) = chars row"
  by (simp add: editorUpdateRow_def editorUpdateSyntax_def)

lemma editorUpdateRow_in_sync:
  "length (hl (editorUpdateRow syn row)) = length (render (editorUpdateRow syn row))"
  by (simp add: editorUpdateRow_def editorUpdateSyntax_def)

text \<open>
  C9.  For every row and all raw columns \<open>0 \<le> a \<le> b \<le> len(raw)\<close>, the rendered
  column of \<open>a\<close> is at most the rendered column of \<open>b\<close> (both are computed without
  an out-of-range read), and the rendered column of raw column 0 is 0.
\<close>

theorem editorRowCxToRx_monotone:
  assumes "0 \<le> a" and "a \<le> b" and "b \<le> int (length (chars row))"
  shows "editorRowCxToRx row 0 = Inr 0
         \<and> (\<exists>ra rb. editorRowCxToRx row a = Inr ra \<and> editorRowCxToRx row b = Inr rb \<and> ra \<le> rb)"
proof -
  have zero: "editorRowCxToRx row 0 = Inr 0"
    using editorRowCxToRx_foldl [of 0 row] by simp
  have ea: "editorRowCxToRx row a = Inr (foldl rx_step 0 (take (nat a) (chars row)))"
    using assms by (intro editorRowCxToRx_foldl) simp_all
  have eb: "editorRowCxToRx row b = Inr (foldl rx_step 0 (take (nat b) (chars row)))"
    using assms by (intro editorRowCxToRx_foldl) simp_all
  have "take (nat b) (chars row)
          = take (nat a) (chars row) @ take (nat b - nat a) (drop (nat a) (chars row))"
    using assms by (simp add: take_add [symmetric])
  then have "foldl rx_step 0 (take (nat b) (chars row))
          = foldl rx_step (foldl rx_step 0 (take (nat a) (chars row)))
              (take (nat b - nat a) (drop (nat a) (chars row)))"
    by (simp only: foldl_append)
  then have "foldl rx_step 0 (take (nat a) (chars row)) \<le> foldl rx_step 0 (take (nat b) (chars row))"
    by (simp only: foldl_rx_step_ge)
  with zero ea eb show ?thesis
    by simp
qed

theorem editorRowCxToRx_monotone_witness:
  "(0::int) \<le> 1 \<and> (1::int) \<le> 2
   \<and> 2 \<le> int (length (chars \<lparr> chars = [CHR ''a'', CHR 0x09, CHR ''b''], render = [], hl = [] \<rparr>))
   \<and> editorRowCxToRx \<lparr> chars = [CHR ''a'', CHR 0x09, CHR ''b''], render = [], hl = [] \<rparr> 0 = Inr 0
   \<and> (\<exists>ra rb.
         editorRowCxToRx \<lparr> chars = [CHR ''a'', CHR 0x09, CHR ''b''], render = [], hl = [] \<rparr> 1 = Inr ra
         \<and> editorRowCxToRx \<lparr> chars = [CHR ''a'', CHR 0x09, CHR ''b''], render = [], hl = [] \<rparr> 2 = Inr rb
         \<and> ra \<le> rb)"
  using editorRowCxToRx_monotone
          [of 1 2 "\<lparr> chars = [CHR ''a'', CHR 0x09, CHR ''b''], render = [], hl = [] \<rparr>"]
  by simp

text \<open>
  C7.  With tab stop 8 the row \<open>a<TAB>b\<close> renders to \<open>a\<close>, seven spaces, \<open>b\<close>
  (length 9), raw column 1 maps to rendered column 1 and raw column 2 to rendered
  column 8; and for every row the raw column \<open>len(raw)\<close> maps to the length of the
  rendered text, without failing.
\<close>

theorem tab_expansion_and_end_column:
  "render (editorUpdateRow syn \<lparr> chars = [CHR ''a'', CHR 0x09, CHR ''b''], render = r0, hl = h0 \<rparr>)
     = ''a       b''
   \<and> length (render (editorUpdateRow syn \<lparr> chars = [CHR ''a'', CHR 0x09, CHR ''b''], render = r0, hl = h0 \<rparr>)) = 9
   \<and> editorRowCxToRx (editorUpdateRow syn \<lparr> chars = [CHR ''a'', CHR 0x09, CHR ''b''], render = r0, hl = h0 \<rparr>) 1 = Inr 1
   \<and> editorRowCxToRx (editorUpdateRow syn \<lparr> chars = [CHR ''a'', CHR 0x09, CHR ''b''], render = r0, hl = h0 \<rparr>) 2 = Inr 8
   \<and> editorRowCxToRx (editorUpdateRow syn row) (int (length (chars (editorUpdateRow syn row))))
       = Inr (int (length (render (editorUpdateRow syn row))))"
proof -
  have r: "render_loop [CHR ''a'', CHR 0x09, CHR ''b''] [] = ''a       b''"
    by code_simp
  have c1: "cx_to_rx_loop [CHR ''a'', CHR 0x09, CHR ''b''] 1 0 0 = Inr 1"
    by code_simp
  have c2: "cx_to_rx_loop [CHR ''a'', CHR 0x09, CHR ''b''] 2 0 0 = Inr 8"
    by code_simp
  have e: "editorRowCxToRx (editorUpdateRow syn row) (int (length (chars (editorUpdateRow syn row))))
             = Inr (int (length (render (editorUpdateRow syn row))))"
    using editorRowCxToRx_foldl [of "int (length (chars row))" "editorUpdateRow syn row"]
          length_render_loop [of "chars row" "[]"]
    by (simp add: chars_editorUpdateRow render_editorUpdateRow)
  from r c1 c2 e show ?thesis
    by (simp add: render_editorUpdateRow chars_editorUpdateRow editorRowCxToRx_def)
qed

section \<open>Classifier examples\<close>

text \<open>
  C8.  With a grammar whose keyword list is the primary keyword \<open>int\<close> (comment marker
  \<open>//\<close>, any name, extensions and flags), the rendered text \<open>integer\<close> is classified
  \<open>HL_NORMAL\<close> throughout, so positions 0 to 2 are not \<open>HL_KEYWORD1\<close>; the
  rendered text \<open>int x\<close> has \<open>HL_KEYWORD1\<close> at positions 0, 1 and 2.
\<close>

theorem keyword_boundary_int:
  "hl (editorUpdateSyntax
         (Some \<lparr> filetype = ft, extensions = ex, syntax_keywords = [''int''],
                 singleline_comment_start = ''//'', flags = fl \<rparr>)
         \<lparr> chars = cs, render = ''integer'', hl = h0 \<rparr>)
     = [HL_NORMAL, HL_NORMAL, HL_NORMAL, HL_NORMAL, HL_NORMAL, HL_NORMAL, HL_NORMAL]
   \<and> hl (editorUpdateSyntax
         (Some \<lparr> filetype = ft, extensions = ex, syntax_keywords = [''int''],
                 singleline_comment_start = ''//'', flags = fl \<rparr>)
         \<lparr> chars = cs, render = ''int x'', hl = h0 \<rparr>)
     = [HL_KEYWORD1, HL_KEYWORD1, HL_KEYWORD1, HL_NORMAL, HL_NORMAL]"
proof -
  have a: "syntax_loop
         (Some \<lparr> filetype = ft, extensions = ex, syntax_keywords = [''int''],
                 singleline_comment_start = ''//'', flags = fl \<rparr>) [''int''] ''integer''
         [HL_NORMAL, HL_NORMAL, HL_NORMAL, HL_NORMAL, HL_NORMAL, HL_NORMAL, HL_NORMAL] True None 0
       = [HL_NORMAL, HL_NORMAL, HL_NORMAL, HL_NORMAL, HL_NORMAL, HL_NORMAL, HL_NORMAL]"
    by code_simp
  have b: "syntax_loop
         (Some \<lparr> filetype = ft, extensions = ex, syntax_keywords = [''int''],
                 singleline_comment_start = ''//'', flags = fl \<rparr>) [''int''] ''int x''
         [HL_NORMAL, HL_NORMAL, HL_NORMAL, HL_NORMAL, HL_NORMAL] True None 0
       = [HL_KEYWORD1, HL_KEYWORD1, HL_KEYWORD1, HL_NORMAL, HL_NORMAL]"
    by code_simp
  from a b show ?thesis
    by (simp add: editorUpdateSyntax_def)
qed

text \<open>
  C1.  Without a grammar the classifier skips the comment and keyword branches only:
  the string and number branches do not test \<open>E.syntax\<close> (nor the grammar's
  \<open>flags\<close>), so the rendered text \<open>1\<close> is classified \<open>HL_NUMBER\<close>.
\<close>

theorem no_grammar_number_highlighted:
  "hl (editorUpdateSyntax None \<lparr> chars = ''1'', render = ''1'', hl = [] \<rparr>) = [HL_NUMBER]"
  by code_simp

section \<open>Row insertion and deletion outside the document\<close>

text \<open>
  C10.  \<open>editorInsertRow\<close> with an index outside \<open>[0, len(rows)]\<close> and
  \<open>editorDelRow\<close> with an index outside \<open>[0, len(rows))\<close> return the editor state
  unchanged (rows, dirty flag and every other field); the functions have no error result.
\<close>

theorem out_of_range_row_index_noop:
  "(at < 0 \<or> int (length (E_rows E)) < at \<longrightarrow> editorInsertRow at s E = E)
   \<and> (at' < 0 \<or> int (length (E_rows E)) \<le> at' \<longrightarrow> editorDelRow at' E = E)"
  by (simp add: editorInsertRow_def editorDelRow_def)

theorem out_of_range_row_index_noop_witness:
  "((5::int) < 0 \<or> int (length (E_rows
       \<lparr> E_cx = 0, E_cy = 0, E_rx = 0, E_rowoff = 0, E_coloff = 0, E_screenrows = 22,
         E_screencols = 80, E_dirty = False, E_filename = [], E_statusmsg = [],
         E_statusmsg_time = 0, E_syntax = None,
         E_rows = [\<lparr> chars = ''ab'', render = ''ab'', hl = [HL_NORMAL, HL_NORMAL] \<rparr>] \<rparr>)) < 5)
   \<and> editorInsertRow 5 ''x''
       \<lparr> E_cx = 0, E_cy = 0, E_rx = 0, E_rowoff = 0, E_coloff = 0, E_screenrows = 22,
         E_screencols = 80, E_dirty = False, E_filename = [], E_statusmsg = [],
         E_statusmsg_time = 0, E_syntax = None,
         E_rows = [\<lparr> chars = ''ab'', render = ''ab'', hl = [HL_NORMAL, HL_NORMAL] \<rparr>] \<rparr>
     = \<lparr> E_cx = 0, E_cy = 0, E_rx = 0, E_rowoff = 0, E_coloff = 0, E_screenrows = 22,
         E_screencols = 80, E_dirty = False, E_filename = [], E_statusmsg = [],
         E_statusmsg_time = 0, E_syntax = None,
         E_rows = [\<lparr> chars = ''ab'', render = ''ab'', hl = [HL_NORMAL, HL_NORMAL] \<rparr>] \<rparr>
   \<and> editorDelRow 1
       \<lparr> E_cx = 0, E_cy = 0, E_rx = 0, E_rowoff = 0, E_coloff = 0, E_screenrows = 22,
         E_screencols = 80, E_dirty = False, E_filename = [], E_statusmsg = [],
         E_statusmsg_time = 0, E_syntax = None,
         E_rows = [\<lparr> chars = ''ab'', render = ''ab'', hl = [HL_NORMAL, HL_NORMAL] \<rparr>] \<rparr>
     = \<lparr> E_cx = 0, E_cy = 0, E_rx = 0, E_rowoff = 0, E_coloff = 0, E_screenrows = 22,
         E_screencols = 80, E_dirty = False, E_filename = [], E_statusmsg = [],
         E_statusmsg_time = 0, E_syntax = None,
         E_rows = [\<lparr> chars = ''ab'', render = ''ab'', hl = [HL_NORMAL, HL_NORMAL] \<rparr>] \<rparr>"
  using out_of_range_row_index_noop
          [of 5 "\<lparr> E_cx = 0, E_cy = 0, E_rx = 0, E_rowoff = 0, E_coloff = 0, E_screenrows = 22,
         E_screencols = 80, E_dirty = False, E_filename = [], E_statusmsg = [],
         E_statusmsg_time = 0, E_syntax = None,
         E_rows = [\<lparr> chars = ''ab'', render = ''ab'', hl = [HL_NORMAL, HL_NORMAL] \<rparr>] \<rparr>"
             "''x''" 1]
  by simp

section \<open>The row invariant under the edit operations\<close>

lemma rows_in_sync_fields [simp]:
  "rows_in_sync (E\<lparr> E_cx := x \<rparr>) = rows_in_sync E"
  "rows_in_sync (E\<lparr> E_cy := y \<rparr>) = rows_in_sync E"
  "rows_in_sync (E\<lparr> E_dirty := d \<rparr>) = rows_in_sync E"
  by (simp_all add: rows_in_sync_def)

lemma rows_in_sync_update:
  "rows_in_sync E \<Longrightarrow> length (render row) = length (hl row) \<Longrightarrow>
   rows_in_sync (E\<lparr> E_rows := (E_rows E)[ri := row] \<rparr>)"
  unfolding rows_in_sync_def using set_update_subset_insert [of "E_rows E" ri row] by auto

lemma rows_in_sync_insert:
  "rows_in_sync E \<Longrightarrow> length (render row) = length (hl row) \<Longrightarrow>
   rows_in_sync (E\<lparr> E_rows := take n (E_rows E) @ row # drop n (E_rows E) \<rparr>)"
  unfolding rows_in_sync_def by (auto dest: in_set_takeD in_set_dropD)

lemma rows_in_sync_delete:
  "rows_in_sync E \<Longrightarrow> rows_in_sync (E\<lparr> E_rows := take n (E_rows E) @ drop m (E_rows E) \<rparr>)"
  unfolding rows_in_sync_def by (auto dest: in_set_takeD in_set_dropD)

lemma rows_in_sync_editorInsertRow:
  "rows_in_sync E \<Longrightarrow> rows_in_sync (editorInsertRow at s E)"
  by (simp add: editorInsertRow_def Let_def rows_in_sync_insert editorUpdateRow_in_sync)

lemma rows_in_sync_editorDelRow:
  "rows_in_sync E \<Longrightarrow> rows_in_sync (editorDelRow at E)"
  by (simp add: editorDelRow_def rows_in_sync_delete)

lemma rows_in_sync_editorRowInsertChar:
  "rows_in_sync E \<Longrightarrow> rows_in_sync (editorRowInsertChar ri at c E)"
  by (simp add: editorRowInsertChar_def Let_def rows_in_sync_update editorUpdateRow_in_sync)

lemma rows_in_sync_editorRowAppendString:
  "rows_in_sync E \<Longrightarrow> rows_in_sync (editorRowAppendString ri s E)"
  by (simp add: editorRowAppendString_def Let_def rows_in_sync_update editorUpdateRow_in_sync)

lemma rows_in_sync_editorRowDelChar:
  "rows_in_sync E \<Longrightarrow> rows_in_sync (editorRowDelChar ri at E)"
  by (simp add: editorRowDelChar_def Let_def rows_in_sync_update editorUpdateRow_in_sync)

lemma rows_in_sync_editorInsertChar:
  "rows_in_sync E \<Longrightarrow> editorInsertChar c E = Inr E' \<Longrightarrow> rows_in_sync E'"
  by (auto simp: editorInsertChar_def Let_def rows_in_sync_editorInsertRow
        rows_in_sync_editorRowInsertChar split: if_splits)

lemma rows_in_sync_editorInsertNewline:
  "rows_in_sync E \<Longrightarrow> editorInsertNewline E = Inr E' \<Longrightarrow> rows_in_sync E'"
  by (auto simp: editorInsertNewline_def Let_def rows_in_sync_editorInsertRow
        rows_in_sync_update editorUpdateRow_in_sync split: if_splits)

lemma rows_in_sync_editorDelChar:
  "rows_in_sync E \<Longrightarrow> editorDelChar E = Inr E' \<Longrightarrow> rows_in_sync E'"
  by (auto simp: editorDelChar_def Let_def rows_in_sync_editorDelRow
        rows_in_sync_editorRowAppendString rows_in_sync_editorRowDelChar split: if_splits)

text \<open>With such a cursor the three cursor operations read nothing out of range.\<close>

lemma length_E_rows_editorInsertRow:
  "0 \<le> at \<Longrightarrow> at \<le> int (length (E_rows E)) \<Longrightarrow>
   length (E_rows (editorInsertRow at s E)) = Suc (length (E_rows E))"
  by (simp add: editorInsertRow_def Let_def)

lemma E_cy_editorInsertRow [simp]: "E_cy (editorInsertRow at s E) = E_cy E"
  by (simp add: editorInsertRow_def Let_def)

lemma edit_operations_defined:
  assumes "cursor_ok E"
  shows "\<exists>E'. editorInsertChar c E = Inr E'"
    and "\<exists>E'. editorInsertNewline E = Inr E'"
    and "\<exists>E'. editorDelChar E = Inr E'"
proof -
  show "\<exists>E'. editorInsertChar c E = Inr E'"
  proof (cases "E_cy E = int (length (E_rows E))")
    case True
    then show ?thesis
      by (simp add: editorInsertChar_def Let_def length_E_rows_editorInsertRow)
  next
    case False
    with assms show ?thesis
      by (simp add: editorInsertChar_def Let_def cursor_ok_def)
  qed
  show "\<exists>E'. editorInsertNewline E = Inr E'"
    using assms by (auto simp: editorInsertNewline_def Let_def cursor_ok_def split: if_splits)
  show "\<exists>E'. editorDelChar E = Inr E'"
    using assms by (auto simp: editorDelChar_def Let_def cursor_ok_def split: if_splits)
qed

lemma rows_in_sync_initEditor: "rows_in_sync (initEditor window_rows window_cols)"
  by (simp add: rows_in_sync_def initEditor_def)

text \<open>
  C5.  After every edit operation (insert-character, insert-newline,
  delete-before-cursor, insert-row, delete-row, append-string-to-row) on a document
  whose rows satisfy \<open>len(rendered) = len(highlight)\<close>, every row of the document
  satisfies it again.  The document starts empty (\<open>rows_in_sync_initEditor\<close>).
\<close>

theorem edit_op_keeps_rows_in_sync:
  assumes "rows_in_sync E" and "edit_op E E'"
  shows "rows_in_sync E'"
  using assms(2,1)
proof (induction rule: edit_op.induct)
  case (insert_char c E E')
  then show ?case by (blast intro: rows_in_sync_editorInsertChar)
next
  case (insert_newline E E')
  then show ?case by (blast intro: rows_in_sync_editorInsertNewline)
next
  case (del_char E E')
  then show ?case by (blast intro: rows_in_sync_editorDelChar)
next
  case (insert_row E at s)
  then show ?case by (rule rows_in_sync_editorInsertRow)
next
  case (del_row E at)
  then show ?case by (rule rows_in_sync_editorDelRow)
next
  case (append_string ri E s)
  then show ?case by (blast intro: rows_in_sync_editorRowAppendString)
qed

theorem edit_op_keeps_rows_in_sync_witness:
  "rows_in_sync (initEditor 24 80)
   \<and> edit_op (initEditor 24 80) (editorInsertRow 0 ''ab'' (initEditor 24 80))
   \<and> rows_in_sync (editorInsertRow 0 ''ab'' (initEditor 24 80))"
  using edit_op_keeps_rows_in_sync
          [of "initEditor 24 80" "editorInsertRow 0 ''ab'' (initEditor 24 80)"]
        edit_op.insert_row [of "initEditor 24 80" 0 "''ab''"]
  by (simp add: rows_in_sync_initEditor)

section \<open>Loading and serialising\<close>

lemma lines_text_concat:
  "ls \<noteq> [] \<Longrightarrow> lines_text ls = concat (map (\<lambda>l. l @ [CHR 0x0A]) ls)"
  unfolding lines_text_def by (induction ls rule: join_newline.induct) simp_all

lemma E_syntax_editorInsertRow [simp]: "E_syntax (editorInsertRow at s E) = E_syntax E"
  by (simp add: editorInsertRow_def Let_def)

lemma E_rows_editorInsertRow_end:
  "E_rows (editorInsertRow (int (length (E_rows E))) s E)
     = E_rows E @ [editorUpdateRow (E_syntax E) \<lparr> chars = s, render = [], hl = [] \<rparr>]"
  by (simp add: editorInsertRow_def Let_def)

lemma E_rows_open_loop:
  "E_rows (open_loop ls E)
     = E_rows E @ map (\<lambda>l. editorUpdateRow (E_syntax E) \<lparr> chars = strip_cr l, render = [], hl = [] \<rparr>) ls"
  by (induction ls arbitrary: E) (simp_all add: E_rows_editorInsertRow_end)

lemma editorRowsToString_editorOpen:
  "E_rows E = [] \<Longrightarrow>
   editorRowsToString (editorOpen fname ls E) = concat (map (\<lambda>l. strip_cr l @ [CHR 0x0A]) ls)"
  by (simp add: editorRowsToString_def editorOpen_def Let_def E_rows_open_loop
        editorSelectSyntaxHighlight_def chars_editorUpdateRow comp_def)

text \<open>
  C6, as the code has it.  For every sequence of lines none of which ends with a carriage
  return, loading the lines into an empty document and serialising it yields every line
  followed by a newline, whatever other bytes (tabs included) the lines contain; for a
  non-empty sequence this is the lines joined by newlines with one trailing newline.
\<close>

theorem load_then_serialize:
  assumes "E_rows E = []"
    and "\<forall>l \<in> set ls. l = [] \<or> last l \<noteq> CHR 0x0D"
  shows "editorRowsToString (editorOpen fname ls E) = concat (map (\<lambda>l. l @ [CHR 0x0A]) ls)
         \<and> (ls \<noteq> [] \<longrightarrow> editorRowsToString (editorOpen fname ls E) = lines_text ls)"
proof -
  from assms(2) have "map (\<lambda>l. strip_cr l @ [CHR 0x0A]) ls = map (\<lambda>l. l @ [CHR 0x0A]) ls"
    by (intro map_cong) (auto simp: strip_cr_def)
  then have "editorRowsToString (editorOpen fname ls E) = concat (map (\<lambda>l. l @ [CHR 0x0A]) ls)"
    using assms(1) by (simp only: editorRowsToString_editorOpen)
  then show ?thesis
    by (simp add: lines_text_concat)
qed

theorem load_then_serialize_witness:
  "E_rows (initEditor 24 80) = []
   \<and> last [CHR ''a'', CHR 0x09, CHR ''b''] \<noteq> CHR 0x0D \<and> last ''c'' \<noteq> CHR 0x0D
   \<and> editorRowsToString (editorOpen ''f.c'' [[CHR ''a'', CHR 0x09, CHR ''b''], ''c''] (initEditor 24 80))
       = [CHR ''a'', CHR 0x09, CHR ''b'', CHR 0x0A, CHR ''c'', CHR 0x0A]
   \<and> lines_text [[CHR ''a'', CHR 0x09, CHR ''b''], ''c'']
       = [CHR ''a'', CHR 0x09, CHR ''b'', CHR 0x0A, CHR ''c'', CHR 0x0A]"
  using load_then_serialize [of "initEditor 24 80" "[[CHR ''a'', CHR 0x09, CHR ''b''], ''c'']" "''f.c''"]
  by (simp add: initEditor_def lines_text_def)

text \<open>
  C6 as stated fails on a line that ends with a carriage return: the loader strips it,
  so the line \<open>a<CR>\<close> comes back as \<open>a\<close>.
\<close>

theorem load_then_serialize_counterexample:
  "editorRowsToString (editorOpen ''f.c'' [[CHR ''a'', CHR 0x0D]] (initEditor 24 80))
     = [CHR ''a'', CHR 0x0A]
   \<and> lines_text [[CHR ''a'', CHR 0x0D]] = [CHR ''a'', CHR 0x0D, CHR 0x0A]
   \<and> editorRowsToString (editorOpen ''f.c'' [[CHR ''a'', CHR 0x0D]] (initEditor 24 80))
       \<noteq> lines_text [[CHR ''a'', CHR 0x0D]]"
  by (simp add: editorRowsToString_editorOpen initEditor_def strip_cr_def lines_text_def)

section \<open>Facts about the search\<close>

lemma str_find_bound: "str_find s q = Some pos \<Longrightarrow> pos + length q \<le> length s"
proof (induction s arbitrary: pos)
  case Nil
  then show ?case by (simp split: if_splits)
next
  case (Cons c cs)
  show ?case
  proof (cases "prefix q (c # cs)")
    case True
    with Cons.prems have "pos = 0" by simp
    with prefix_length_le [OF True] show ?thesis by simp
  next
    case False
    with Cons.prems obtain p where "str_find cs q = Some p" and "pos = Suc p"
      by auto
    with Cons.IH [of p] show ?thesis by simp
  qed
qed

lemma foldl_rx_step_length: "rx + int (length cs) \<le> foldl rx_step rx cs"
proof (induction cs arbitrary: rx)
  case Nil
  show ?case by simp
next
  case (Cons c cs)
  have "rx + 1 \<le> rx_step rx c"
    using rx_step_gt [of rx c] by simp
  moreover have "rx_step rx c + int (length cs) \<le> foldl rx_step (rx_step rx c) cs"
    by (rule Cons.IH)
  ultimately show ?case by simp
qed

lemma length_chars_le_render: "length cs \<le> length (render_loop cs [])"
  using foldl_rx_step_length [of 0 cs] length_render_loop [of cs "[]"] by simp

lemma nth_fill_range:
  "j < length xs \<Longrightarrow> fill_range xs a b x ! j = (if a \<le> j \<and> j < b then x else xs ! j)"
proof (induction xs a b x rule: fill_range.induct)
  case (1 xs a b x)
  show ?case
  proof (cases "a < b")
    case True
    with 1 show ?thesis
      by (subst fill_range.simps) (auto simp: nth_list_update)
  next
    case False
    then show ?thesis
      by (subst fill_range.simps) auto
  qed
qed

lemma fill_range_replicate:
  assumes "pos + m \<le> n"
  shows "fill_range (replicate n a) pos (pos + m) b
           = replicate pos a @ replicate m b @ replicate (n - pos - m) a"
proof (rule nth_equalityI)
  show "length (fill_range (replicate n a) pos (pos + m) b)
          = length (replicate pos a @ replicate m b @ replicate (n - pos - m) a)"
    using assms by simp
next
  fix j
  assume "j < length (fill_range (replicate n a) pos (pos + m) b)"
  then have j: "j < n" by simp
  then show "fill_range (replicate n a) pos (pos + m) b ! j
               = (replicate pos a @ replicate m b @ replicate (n - pos - m) a) ! j"
    using assms by (auto simp: nth_fill_range nth_append)
qed

lemma find_scan_result:
  "find_scan q i cur E st = Inr (E', st') \<Longrightarrow>
   (E' = E \<and> st' = st)
   \<or> (\<exists>k pos. k < length (E_rows E) \<and> str_find (chars (E_rows E ! k)) q = Some pos
         \<and> find_record_match q k pos E st = Inr (E', st'))"
proof (induction q i cur E st rule: find_scan.induct)
  case (1 query i current E st)
  let ?c1 = "current + direction st"
  let ?c2 = "if ?c1 = - 1 then int (length (E_rows E)) - 1
             else if ?c1 = int (length (E_rows E)) then 0 else ?c1"
  show ?case
  proof (cases "i < length (E_rows E)")
    case False
    with 1(2) show ?thesis
      by (subst (asm) find_scan.simps) simp
  next
    case lt: True
    show ?thesis
    proof (cases "?c2 < 0 \<or> int (length (E_rows E)) \<le> ?c2")
      case True
      with lt 1(2) show ?thesis
        by (subst (asm) find_scan.simps) (simp add: Let_def)
    next
      case inr: False
      show ?thesis
      proof (cases "str_find (chars (E_rows E ! nat ?c2)) query")
        case None
        with lt inr 1(2) have "find_scan query (Suc i) ?c2 E st = Inr (E', st')"
          by (subst (asm) find_scan.simps) (simp add: Let_def)
        with 1(1) [OF lt refl refl inr None] show ?thesis .
      next
        case (Some pos)
        with lt inr 1(2) have "find_record_match query (nat ?c2) pos E st = Inr (E', st')"
          by (subst (asm) find_scan.simps) (simp add: Let_def)
        moreover from inr have "nat ?c2 < length (E_rows E)"
          by linarith
        ultimately show ?thesis
          using Some by blast
      qed
    qed
  qed
qed

lemma find_scan_forward:
  assumes "direction st = 1"
    and "k < length (E_rows E)"
    and "str_find (chars (E_rows E ! k)) q = Some pos"
  shows "i \<le> k \<Longrightarrow> (\<forall>j. i \<le> j \<and> j < k \<longrightarrow> str_find (chars (E_rows E ! j)) q = None) \<Longrightarrow>
         find_scan q i (int i - 1) E st = find_record_match q k pos E st"
proof (induction "k - i" arbitrary: i)
  case 0
  then have "i = k" by simp
  with assms show ?case
    by (subst find_scan.simps) (simp add: Let_def)
next
  case (Suc d)
  then have lt: "i < k" by simp
  with Suc.prems have none: "str_find (chars (E_rows E ! i)) q = None"
    by simp
  have "find_scan q i (int i - 1) E st = find_scan q (Suc i) (int (Suc i) - 1) E st"
    using lt assms(1,2) none by (subst find_scan.simps) (simp add: Let_def)
  also have "\<dots> = find_record_match q k pos E st"
    using Suc.hyps(2) lt Suc.prems(2) by (intro Suc.hyps(1)) auto
  finally show ?case .
qed

lemma find_restore_None: "saved_hl st = None \<Longrightarrow> find_restore E st = Inr (E, st)"
  by (simp add: find_restore_def)


lemma find_restore_length:
  "find_restore E st = Inr (E1, st1) \<Longrightarrow> length (E_rows E1) = length (E_rows E)"
  by (auto simp: find_restore_def Let_def split: option.splits if_splits)

lemma saved_hl_find_key [simp]: "saved_hl (find_key key st) = saved_hl st"
  by (simp add: find_key_def Let_def)

lemma find_record_match_result:
  assumes "find_record_match q k pos E st = Inr (E', st')" and "k < length (E_rows E)"
  shows "saved_hl_line st' = int k \<and> saved_hl st' = Some (hl (E_rows E ! k))
         \<and> last_match st' = int k \<and> direction st' = direction st
         \<and> E_cy E' = int k \<and> E_cx E' = int pos
         \<and> pos + length q \<le> length (render (E_rows E ! k))
         \<and> length (E_rows E') = length (E_rows E)
         \<and> chars (E_rows E' ! k) = chars (E_rows E ! k)
         \<and> render (E_rows E' ! k) = render (E_rows E ! k)
         \<and> hl (E_rows E' ! k)
             = replicate pos HL_NORMAL @ replicate (length q) HL_MATCH
               @ replicate (length (render (E_rows E ! k)) - pos - length q) HL_NORMAL
         \<and> (\<forall>r. r < length (E_rows E) \<and> r \<noteq> k \<longrightarrow> E_rows E' ! r = E_rows E ! r)"
proof -
  from assms(1) have le: "pos + length q \<le> length (render (E_rows E ! k))"
    by (auto simp: find_record_match_def Let_def split: if_splits)
  with assms show ?thesis
    by (auto simp: find_record_match_def Let_def fill_range_replicate)
qed

section \<open>The match overlay\<close>






section \<open>Where the scan starts\<close>

lemma find_key_backward_unset:
  assumes "last_match st = - 1" and "key = ARROW_LEFT \<or> key = ARROW_UP"
  shows "find_key key st = st\<lparr> direction := 1 \<rparr>"
  using assms by (auto simp: find_key_def Let_def ARROW_LEFT_def ARROW_UP_def ARROW_RIGHT_def ARROW_DOWN_def)

text \<open>
  C3, as the code has it.  When a backward navigation key (\<open>ARROW_LEFT\<close>,
  \<open>ARROW_UP\<close>) arrives with no prior match recorded (\<open>last_match = -1\<close>, hence no
  overlay saved), the callback forces the direction to forward: the scan starts at row 0
  and goes forward, so the match recorded is the first row in document order that
  contains the query, at the query's first position in it.  (The row is rendered: its
  rendered text is at least as long as its raw text.)
\<close>

theorem backward_search_without_match_scans_forward:
  assumes "last_match st = - 1" and "saved_hl st = None"
    and "key = ARROW_LEFT \<or> key = ARROW_UP"
    and "k < length (E_rows E)"
    and "str_find (chars (E_rows E ! k)) query = Some pos"
    and "\<forall>j<k. str_find (chars (E_rows E ! j)) query = None"
    and "length (chars (E_rows E ! k)) \<le> length (render (E_rows E ! k))"
  shows "\<exists>E' st'. editorFindCallback query key E st = Inr (E', st')
           \<and> E_cy E' = int k \<and> E_cx E' = int pos
           \<and> last_match st' = int k \<and> direction st' = 1"
proof -
  let ?st = "st\<lparr> direction := 1 \<rparr>"
  have fk: "find_key key st = ?st"
    using assms(1,3) by (rule find_key_backward_unset)
  have key: "key \<noteq> KEY_ENTER \<and> key \<noteq> KEY_ESC"
    using assms(3) by (auto simp: ARROW_LEFT_def ARROW_UP_def KEY_ENTER_def KEY_ESC_def)
  have "editorFindCallback query key E st = find_scan query 0 (int 0 - 1) E ?st"
    using key assms(1,2) by (simp add: editorFindCallback_def find_restore_None fk)
  also have "\<dots> = find_record_match query k pos E ?st"
    using assms(4,5,6) by (intro find_scan_forward) simp_all
  finally have cb: "editorFindCallback query key E st = find_record_match query k pos E ?st" .
  have "pos + length query \<le> length (render (E_rows E ! k))"
    using str_find_bound [OF assms(5)] assms(7) by simp
  then show ?thesis
    unfolding cb by (simp add: find_record_match_def Let_def)
qed

theorem backward_search_without_match_scans_forward_witness:
  "last_match find_init = - 1 \<and> saved_hl find_init = None
   \<and> (ARROW_UP = ARROW_LEFT \<or> ARROW_UP = ARROW_UP)
   \<and> 1 < length (E_rows doc_bar_foo)
   \<and> str_find (chars (E_rows doc_bar_foo ! 1)) ''foo'' = Some 0
   \<and> str_find (chars (E_rows doc_bar_foo ! 0)) ''foo'' = None
   \<and> length (chars (E_rows doc_bar_foo ! 1)) \<le> length (render (E_rows doc_bar_foo ! 1))
   \<and> (\<exists>E' st'. editorFindCallback ''foo'' ARROW_UP doc_bar_foo find_init = Inr (E', st')
           \<and> E_cy E' = int 1 \<and> E_cx E' = int 0
           \<and> last_match st' = int 1 \<and> direction st' = 1)"
proof -
  have a: "last_match find_init = - 1"
    by (simp add: find_init_def)
  have b: "saved_hl find_init = None"
    by (simp add: find_init_def)
  have c: "ARROW_UP = ARROW_LEFT \<or> ARROW_UP = ARROW_UP"
    by simp
  have d: "1 < length (E_rows doc_bar_foo)"
    by code_simp
  have e: "str_find (chars (E_rows doc_bar_foo ! 1)) ''foo'' = Some 0"
    by code_simp
  have f0: "str_find (chars (E_rows doc_bar_foo ! 0)) ''foo'' = None"
    by code_simp
  then have f: "\<forall>j<1. str_find (chars (E_rows doc_bar_foo ! j)) ''foo'' = None"
    by simp
  have g: "length (chars (E_rows doc_bar_foo ! 1)) \<le> length (render (E_rows doc_bar_foo ! 1))"
    by code_simp
  note h = backward_search_without_match_scans_forward [OF a b c d e f g]
  show ?thesis
    by (intro conjI) (rule a, rule b, rule c, rule d, rule e, rule f0, rule g, rule h)
qed

text \<open>
  C3 as stated fails: in the document \<open>foo, foo\<close> both rows contain the query, so the
  row matched is the first row examined; after \<open>ARROW_UP\<close> on a fresh search state it
  is row 0, not the last row.
\<close>

theorem backward_search_first_row_counterexample:
  "last_match find_init = - 1
   \<and> length (E_rows doc_foo_foo) = 2
   \<and> str_find (chars (E_rows doc_foo_foo ! 1)) ''foo'' = Some 0
   \<and> \<not> isl (editorFindCallback ''foo'' ARROW_UP doc_foo_foo find_init)
   \<and> E_cy (fst (projr (editorFindCallback ''foo'' ARROW_UP doc_foo_foo find_init))) = 0
   \<and> last_match (snd (projr (editorFindCallback ''foo'' ARROW_UP doc_foo_foo find_init))) = 0
   \<and> direction (snd (projr (editorFindCallback ''foo'' ARROW_UP doc_foo_foo find_init))) = 1
   \<and> E_cy (fst (projr (editorFindCallback ''foo'' ARROW_UP doc_foo_foo find_init)))
       \<noteq> int (length (E_rows doc_foo_foo)) - 1"
  by code_simp

section \<open>Restoring the overlay\<close>

lemma find_restore_Some:
  assumes "saved_hl st = Some sv" and "0 \<le> saved_hl_line st"
    and "saved_hl_line st < int (length (E_rows E))"
  shows "find_restore E st
           = Inr (E\<lparr> E_rows := (E_rows E)[nat (saved_hl_line st) :=
                          (E_rows E ! nat (saved_hl_line st))\<lparr> hl := sv \<rparr>] \<rparr>,
                  st\<lparr> saved_hl := None \<rparr>)"
  using assms by (simp add: find_restore_def Let_def)

text \<open>
  C4.  On every search event that finds an overlay saved (for a row of the document),
  the restore block writes the saved sequence back to that row unchanged and clears the
  slot, and the rest of the event, the new match included, is computed from that restored
  state: after the event the row carries the saved sequence again, unless the new match
  is on the same row, in which case the slot holds it again.  In particular, for the
  rows \<open>foo bar\<close> and \<open>baz foo\<close> and the query \<open>foo\<close>, the first search (last key
  typed: \<open>o\<close>, code 111) matches row 0 at column 0, and the following
  \<open>ARROW_RIGHT\<close> event matches row 1 at column 4 and leaves row 0 with the highlight
  sequence it had before the overlay.
\<close>

theorem overlay_restored_before_new_match:
  assumes "saved_hl st = Some sv" and "0 \<le> saved_hl_line st"
    and "saved_hl_line st < int (length (E_rows E))"
  shows "find_restore E st
           = Inr (E\<lparr> E_rows := (E_rows E)[nat (saved_hl_line st) :=
                          (E_rows E ! nat (saved_hl_line st))\<lparr> hl := sv \<rparr>] \<rparr>,
                  st\<lparr> saved_hl := None \<rparr>)
         \<and> hl (E_rows (E\<lparr> E_rows := (E_rows E)[nat (saved_hl_line st) :=
                          (E_rows E ! nat (saved_hl_line st))\<lparr> hl := sv \<rparr>] \<rparr>)
                 ! nat (saved_hl_line st)) = sv
         \<and> editorFindCallback query key E st
             = editorFindCallback query key
                 (E\<lparr> E_rows := (E_rows E)[nat (saved_hl_line st) :=
                          (E_rows E ! nat (saved_hl_line st))\<lparr> hl := sv \<rparr>] \<rparr>)
                 (st\<lparr> saved_hl := None \<rparr>)
         \<and> (\<forall>E' st'. editorFindCallback query key E st = Inr (E', st') \<longrightarrow>
               (case saved_hl st' of
                  None \<Rightarrow> hl (E_rows E' ! nat (saved_hl_line st)) = sv
                | Some sv' \<Rightarrow>
                    if saved_hl_line st' = saved_hl_line st then sv' = sv
                    else hl (E_rows E' ! nat (saved_hl_line st)) = sv))
         \<and> (case editorFindCallback ''foo'' 111 doc_foo_bar_baz_foo find_init of
               Inl e \<Rightarrow> False
             | Inr (E1, st1) \<Rightarrow>
                 E_cy E1 = 0 \<and> E_cx E1 = 0
                 \<and> hl (E_rows E1 ! 0)
                     = [HL_MATCH, HL_MATCH, HL_MATCH, HL_NORMAL, HL_NORMAL, HL_NORMAL, HL_NORMAL]
                 \<and> (case editorFindCallback ''foo'' ARROW_RIGHT E1 st1 of
                       Inl e \<Rightarrow> False
                     | Inr (E2, st2) \<Rightarrow>
                         E_cy E2 = 1 \<and> E_cx E2 = 4
                         \<and> hl (E_rows E2 ! 0) = hl (E_rows doc_foo_bar_baz_foo ! 0)
                         \<and> hl (E_rows E2 ! 1)
                             = [HL_NORMAL, HL_NORMAL, HL_NORMAL, HL_NORMAL,
                                HL_MATCH, HL_MATCH, HL_MATCH]))"
proof -
  let ?r = "nat (saved_hl_line st)"
  let ?E1 = "E\<lparr> E_rows := (E_rows E)[?r := (E_rows E ! ?r)\<lparr> hl := sv \<rparr>] \<rparr>"
  let ?st1 = "st\<lparr> saved_hl := None \<rparr>"
  have r: "?r < length (E_rows E)"
    using assms(2,3) by simp
  have restore: "find_restore E st = Inr (?E1, ?st1)"
    using assms by (rule find_restore_Some)
  have row: "hl (E_rows ?E1 ! ?r) = sv"
    using r by simp
  have restore1: "find_restore ?E1 ?st1 = Inr (?E1, ?st1)"
    by (simp add: find_restore_None)
  have same: "editorFindCallback query key E st = editorFindCallback query key ?E1 ?st1"
    by (simp only: editorFindCallback_def restore restore1)
  have after: "\<forall>E' st'. editorFindCallback query key E st = Inr (E', st') \<longrightarrow>
               (case saved_hl st' of
                  None \<Rightarrow> hl (E_rows E' ! ?r) = sv
                | Some sv' \<Rightarrow>
                    if saved_hl_line st' = saved_hl_line st then sv' = sv
                    else hl (E_rows E' ! ?r) = sv)"
  proof (intro allI impI)
    fix E' st'
    assume cb: "editorFindCallback query key E st = Inr (E', st')"
    show "case saved_hl st' of
            None \<Rightarrow> hl (E_rows E' ! ?r) = sv
          | Some sv' \<Rightarrow>
              if saved_hl_line st' = saved_hl_line st then sv' = sv
              else hl (E_rows E' ! ?r) = sv"
    proof (cases "key = KEY_ENTER \<or> key = KEY_ESC")
      case True
      with cb restore have "E' = ?E1" and "saved_hl st' = None"
        by (auto simp: editorFindCallback_def)
      with row show ?thesis by simp
    next
      case False
      with cb restore
      have scan: "find_scan query 0 (last_match (find_key key ?st1)) ?E1 (find_key key ?st1)
                    = Inr (E', st')"
        by (simp add: editorFindCallback_def)
      from find_scan_result [OF scan]
      show ?thesis
      proof
        assume "E' = ?E1 \<and> st' = find_key key ?st1"
        with row show ?thesis by simp
      next
        assume "\<exists>k pos. k < length (E_rows ?E1)
                  \<and> str_find (chars (E_rows ?E1 ! k)) query = Some pos
                  \<and> find_record_match query k pos ?E1 (find_key key ?st1) = Inr (E', st')"
        then obtain k pos where k: "k < length (E_rows ?E1)"
          and m: "find_record_match query k pos ?E1 (find_key key ?st1) = Inr (E', st')"
          by blast
        note res = find_record_match_result [OF m k]
        show ?thesis
        proof (cases "k = ?r")
          case True
          have "saved_hl_line st' = saved_hl_line st"
            using res True assms(2) by simp
          moreover have "saved_hl st' = Some sv"
            using res True row by simp
          ultimately show ?thesis
            by simp
        next
          case False
          have "saved_hl_line st' \<noteq> saved_hl_line st"
            using res False assms(2) by auto
          moreover have "\<exists>sv'. saved_hl st' = Some sv'"
            using res by simp
          moreover have "E_rows E' ! ?r = E_rows ?E1 ! ?r"
            using res r False by simp
          ultimately show ?thesis
            using row by auto
        qed
      qed
    qed
  qed
  have example: "case editorFindCallback ''foo'' 111 doc_foo_bar_baz_foo find_init of
               Inl e \<Rightarrow> False
             | Inr (E1, st1) \<Rightarrow>
                 E_cy E1 = 0 \<and> E_cx E1 = 0
                 \<and> hl (E_rows E1 ! 0)
                     = [HL_MATCH, HL_MATCH, HL_MATCH, HL_NORMAL, HL_NORMAL, HL_NORMAL, HL_NORMAL]
                 \<and> (case editorFindCallback ''foo'' ARROW_RIGHT E1 st1 of
                       Inl e \<Rightarrow> False
                     | Inr (E2, st2) \<Rightarrow>
                         E_cy E2 = 1 \<and> E_cx E2 = 4
                         \<and> hl (E_rows E2 ! 0) = hl (E_rows doc_foo_bar_baz_foo ! 0)
                         \<and> hl (E_rows E2 ! 1)
                             = [HL_NORMAL, HL_NORMAL, HL_NORMAL, HL_NORMAL,
                                HL_MATCH, HL_MATCH, HL_MATCH])"
    by code_simp
  show ?thesis
    by (intro conjI) (rule restore, rule row, rule same, rule after, rule example)
qed

theorem overlay_restored_before_new_match_witness:
  "let R = editorFindCallback ''foo'' 111 doc_foo_bar_baz_foo find_init;
       E = fst (projr R);
       st = snd (projr R)
   in saved_hl st
        = Some [HL_NORMAL, HL_NORMAL, HL_NORMAL, HL_NORMAL, HL_NORMAL, HL_NORMAL, HL_NORMAL]
      \<and> 0 \<le> saved_hl_line st
      \<and> saved_hl_line st < int (length (E_rows E))
      \<and> find_restore E st
          = Inr (E\<lparr> E_rows := (E_rows E)[nat (saved_hl_line st) :=
                   (E_rows E ! nat (saved_hl_line st))
                     \<lparr> hl := [HL_NORMAL, HL_NORMAL, HL_NORMAL, HL_NORMAL, HL_NORMAL,
                              HL_NORMAL, HL_NORMAL] \<rparr>] \<rparr>,
                 st\<lparr> saved_hl := None \<rparr>)"
proof -
  let ?R = "editorFindCallback ''foo'' 111 doc_foo_bar_baz_foo find_init"
  let ?E = "fst (projr ?R)"
  let ?st = "snd (projr ?R)"
  have h1: "saved_hl ?st
              = Some [HL_NORMAL, HL_NORMAL, HL_NORMAL, HL_NORMAL, HL_NORMAL, HL_NORMAL, HL_NORMAL]"
    by code_simp
  have h2: "0 \<le> saved_hl_line ?st"
    by code_simp
  have h3: "saved_hl_line ?st < int (length (E_rows ?E))"
    by code_simp
  note c = overlay_restored_before_new_match [OF h1 h2 h3, of "''foo''" ARROW_RIGHT]
  from c have c1: "find_restore ?E ?st
          = Inr (?E\<lparr> E_rows := (E_rows ?E)[nat (saved_hl_line ?st) :=
                   (E_rows ?E ! nat (saved_hl_line ?st))
                     \<lparr> hl := [HL_NORMAL, HL_NORMAL, HL_NORMAL, HL_NORMAL, HL_NORMAL,
                              HL_NORMAL, HL_NORMAL] \<rparr>] \<rparr>,
                 ?st\<lparr> saved_hl := None \<rparr>)"
    by (rule conjunct1)
  show ?thesis
    unfolding Let_def by (intro conjI) (rule h1, rule h2, rule h3, rule c1)
qed

end
